theory Spec2Isabelle
  imports Main "HOL-Library.Sublist" "HOL-Library.Word"
begin

section \<open>Go values bound to placeholders\<close>

text \<open>
  \<^verbatim>\<open>scope.SQLVars\<close> is a \<^verbatim>\<open>[]interface{}\<close>: every element is a dynamically typed Go
  value. The model covers the types that \<^verbatim>\<open>setStatement\<close> names in its type switch and
  the scalars a driver usually binds. A \<^verbatim>\<open>time.Time\<close> is carried as the text its
  \<^verbatim>\<open>String\<close> method returns, a \<^verbatim>\<open>float64\<close> as the text \<^verbatim>\<open>%v\<close> prints for it; nothing
  else of either is used by the package.
\<close>

datatype time = Time (String: string)

datatype float64 = Float64 (shown: string)

datatype go_value =
    GoNil                            \<comment> \<open>the nil interface value\<close>
  | GoString string                  \<comment> \<open>\<^verbatim>\<open>string\<close>\<close>
  | GoInt "64 word"                  \<comment> \<open>\<^verbatim>\<open>int\<close> (64-bit platform)\<close>
  | GoInt64 "64 word"                \<comment> \<open>\<^verbatim>\<open>int64\<close>\<close>
  | GoInt32 "32 word"                \<comment> \<open>\<^verbatim>\<open>int32\<close>\<close>
  | GoBool bool                      \<comment> \<open>\<^verbatim>\<open>bool\<close>\<close>
  | GoFloat64 float64                \<comment> \<open>\<^verbatim>\<open>float64\<close>\<close>
  | GoBytes "char list"              \<comment> \<open>\<^verbatim>\<open>[]byte\<close>\<close>
  | TimeTime time                    \<comment> \<open>\<^verbatim>\<open>time.Time\<close>\<close>
  | SqlNullTime time bool            \<comment> \<open>\<^verbatim>\<open>sql.NullTime{Time, Valid}\<close>\<close>
  | SqlNullString string bool        \<comment> \<open>\<^verbatim>\<open>sql.NullString{String, Valid}\<close>\<close>
  | SqlNullInt64 "64 word" bool      \<comment> \<open>\<^verbatim>\<open>sql.NullInt64{Int64, Valid}\<close>\<close>
  | SqlNullInt32 "32 word" bool      \<comment> \<open>\<^verbatim>\<open>sql.NullInt32{Int32, Valid}\<close>\<close>
  | SqlNullBool bool bool            \<comment> \<open>\<^verbatim>\<open>sql.NullBool{Bool, Valid}\<close>\<close>
  | SqlNullFloat64 float64 bool      \<comment> \<open>\<^verbatim>\<open>sql.NullFloat64{Float64, Valid}\<close>\<close>
  | PqNullTime time bool             \<comment> \<open>\<^verbatim>\<open>pq.NullTime{Time, Valid}\<close>\<close>

text \<open>The enumeration \<^verbatim>\<open>reflect.Kind\<close>.\<close>

datatype Kind =
    reflect_Invalid | reflect_Bool
  | reflect_Int | reflect_Int8 | reflect_Int16 | reflect_Int32 | reflect_Int64
  | reflect_Uint | reflect_Uint8 | reflect_Uint16 | reflect_Uint32 | reflect_Uint64
  | reflect_Uintptr | reflect_Float32 | reflect_Float64 | reflect_Complex64
  | reflect_Complex128 | reflect_Array | reflect_Chan | reflect_Func | reflect_Interface
  | reflect_Map | reflect_Pointer | reflect_Slice | reflect_String | reflect_Struct
  | reflect_UnsafePointer

text \<open>
  \<^verbatim>\<open>reflect.ValueOf(val).Kind()\<close>. \<^verbatim>\<open>reflect.ValueOf\<close> returns the concrete value stored
  in the interface it is given, so the kind is the kind of the dynamic type: \<^verbatim>\<open>reflect.Struct\<close> for
  \<^verbatim>\<open>time.Time\<close> and for every \<^verbatim>\<open>Null*\<close> wrapper, and \<^verbatim>\<open>reflect.Invalid\<close> for the nil interface
  (the zero \<^verbatim>\<open>reflect.Value\<close>).
\<close>

fun ValueOf_Kind :: "go_value \<Rightarrow> Kind" where
  "ValueOf_Kind GoNil = reflect_Invalid"
| "ValueOf_Kind (GoString _) = reflect_String"
| "ValueOf_Kind (GoInt _) = reflect_Int"
| "ValueOf_Kind (GoInt64 _) = reflect_Int64"
| "ValueOf_Kind (GoInt32 _) = reflect_Int32"
| "ValueOf_Kind (GoBool _) = reflect_Bool"
| "ValueOf_Kind (GoFloat64 _) = reflect_Float64"
| "ValueOf_Kind (GoBytes _) = reflect_Slice"
| "ValueOf_Kind (TimeTime _) = reflect_Struct"
| "ValueOf_Kind (SqlNullTime _ _) = reflect_Struct"
| "ValueOf_Kind (SqlNullString _ _) = reflect_Struct"
| "ValueOf_Kind (SqlNullInt64 _ _) = reflect_Struct"
| "ValueOf_Kind (SqlNullInt32 _ _) = reflect_Struct"
| "ValueOf_Kind (SqlNullBool _ _) = reflect_Struct"
| "ValueOf_Kind (SqlNullFloat64 _ _) = reflect_Struct"
| "ValueOf_Kind (PqNullTime _ _) = reflect_Struct"

section \<open>Formatting with package fmt\<close>

text \<open>\<^verbatim>\<open>%d\<close> of a non-negative integer: its decimal digits.\<close>

fun decimal :: "nat \<Rightarrow> string" where
  "decimal n =
     (if n < 10 then [''0123456789'' ! n]
      else decimal (n div 10) @ [''0123456789'' ! (n mod 10)])"

declare decimal.simps [simp del]

definition fmt_int :: "int \<Rightarrow> string" where
  "fmt_int i = (if i < 0 then CHR ''-'' # decimal (nat (- i)) else decimal (nat i))"

definition fmt_bool :: "bool \<Rightarrow> string" where
  "fmt_bool b = (if b then ''true'' else ''false'')"

text \<open>Elements of a slice or fields of a struct under \<^verbatim>\<open>%v\<close>: separated by one space.\<close>

fun spaced :: "string list \<Rightarrow> string" where
  "spaced [] = []"
| "spaced [x] = x"
| "spaced (x # y # ys) = x @ '' '' @ spaced (y # ys)"

definition braces :: "string list \<Rightarrow> string" where
  "braces fields = ''{'' @ spaced fields @ ''}''"

text \<open>
  \<^verbatim>\<open>fmt.Sprintf("%v", val)\<close>. A \<^verbatim>\<open>time.Time\<close> is a \<^verbatim>\<open>Stringer\<close>, so it prints what
  \<^verbatim>\<open>String\<close> returns, also as an exported field of a struct. The \<^verbatim>\<open>Null*\<close> wrappers have
  no \<^verbatim>\<open>String\<close> or \<^verbatim>\<open>Format\<close> method: they print as structs, \<^verbatim>\<open>{field field}\<close>.
\<close>

fun Sprintf_v :: "go_value \<Rightarrow> string" where
  "Sprintf_v GoNil = ''<nil>''"
| "Sprintf_v (GoString s) = s"
| "Sprintf_v (GoInt i) = fmt_int (sint i)"
| "Sprintf_v (GoInt64 i) = fmt_int (sint i)"
| "Sprintf_v (GoInt32 i) = fmt_int (sint i)"
| "Sprintf_v (GoBool b) = fmt_bool b"
| "Sprintf_v (GoFloat64 f) = shown f"
| "Sprintf_v (GoBytes bs) = ''['' @ spaced (map (\<lambda>b. decimal (of_char b)) bs) @ '']''"
| "Sprintf_v (TimeTime t) = String t"
| "Sprintf_v (SqlNullTime t valid) = braces [String t, fmt_bool valid]"
| "Sprintf_v (SqlNullString s valid) = braces [s, fmt_bool valid]"
| "Sprintf_v (SqlNullInt64 i valid) = braces [fmt_int (sint i), fmt_bool valid]"
| "Sprintf_v (SqlNullInt32 i valid) = braces [fmt_int (sint i), fmt_bool valid]"
| "Sprintf_v (SqlNullBool b valid) = braces [fmt_bool b, fmt_bool valid]"
| "Sprintf_v (SqlNullFloat64 f valid) = braces [shown f, fmt_bool valid]"
| "Sprintf_v (PqNullTime t valid) = braces [String t, fmt_bool valid]"

text \<open>The text \<^verbatim>\<open>%!s(T=v)\<close> that \<^verbatim>\<open>%s\<close> prints for an operand it does not apply to.\<close>

definition bad_verb_s :: "string \<Rightarrow> string \<Rightarrow> string" where
  "bad_verb_s ty v = ''%!s('' @ ty @ ''='' @ v @ '')''"

text \<open>\<^verbatim>\<open>fmt.Sprintf("%s", val)\<close>.\<close>

fun Sprintf_s :: "go_value \<Rightarrow> string" where
  "Sprintf_s GoNil = ''%!s(<nil>)''"
| "Sprintf_s (GoString s) = s"
| "Sprintf_s (GoInt i) = bad_verb_s ''int'' (fmt_int (sint i))"
| "Sprintf_s (GoInt64 i) = bad_verb_s ''int64'' (fmt_int (sint i))"
| "Sprintf_s (GoInt32 i) = bad_verb_s ''int32'' (fmt_int (sint i))"
| "Sprintf_s (GoBool b) = bad_verb_s ''bool'' (fmt_bool b)"
| "Sprintf_s (GoFloat64 f) = bad_verb_s ''float64'' (shown f)"
| "Sprintf_s (GoBytes bs) = bs"
| "Sprintf_s (TimeTime t) = String t"
| "Sprintf_s (SqlNullTime t valid) = braces [String t, bad_verb_s ''bool'' (fmt_bool valid)]"
| "Sprintf_s (SqlNullString s valid) = braces [s, bad_verb_s ''bool'' (fmt_bool valid)]"
| "Sprintf_s (SqlNullInt64 i valid) =
     braces [bad_verb_s ''int64'' (fmt_int (sint i)), bad_verb_s ''bool'' (fmt_bool valid)]"
| "Sprintf_s (SqlNullInt32 i valid) =
     braces [bad_verb_s ''int32'' (fmt_int (sint i)), bad_verb_s ''bool'' (fmt_bool valid)]"
| "Sprintf_s (SqlNullBool b valid) =
     braces [bad_verb_s ''bool'' (fmt_bool b), bad_verb_s ''bool'' (fmt_bool valid)]"
| "Sprintf_s (SqlNullFloat64 f valid) =
     braces [bad_verb_s ''float64'' (shown f), bad_verb_s ''bool'' (fmt_bool valid)]"
| "Sprintf_s (PqNullTime t valid) = braces [String t, bad_verb_s ''bool'' (fmt_bool valid)]"

text \<open>A text between single quotes, as the formats \<^verbatim>\<open>'%s'\<close> and \<^verbatim>\<open>'%v'\<close> print it.\<close>

definition quoted :: "string \<Rightarrow> string" where
  "quoted s = CHR 0x27 # s @ [CHR 0x27]"

section \<open>The literal text of one argument\<close>

text \<open>
  The type switch of \<^verbatim>\<open>setStatement\<close> inside \<^verbatim>\<open>case reflect.Interface\<close>: the default is
  \<^verbatim>\<open>NULL\<close>, replaced when the value is a time or a valid wrapper.
\<close>

fun interface_case :: "go_value \<Rightarrow> string" where
  "interface_case (TimeTime t) = quoted (String t)"
| "interface_case (SqlNullTime t valid) = (if valid then quoted (String t) else ''NULL'')"
| "interface_case (SqlNullString s valid) = (if valid then quoted s else ''NULL'')"
| "interface_case (SqlNullInt64 i valid) = (if valid then fmt_int (sint i) else ''NULL'')"
| "interface_case (SqlNullInt32 i valid) = (if valid then fmt_int (sint i) else ''NULL'')"
| "interface_case (SqlNullBool b valid) = (if valid then fmt_bool b else ''NULL'')"
| "interface_case (SqlNullFloat64 f valid) = (if valid then shown f else ''NULL'')"
| "interface_case (PqNullTime t valid) = (if valid then quoted (String t) else ''NULL'')"
| "interface_case _ = ''NULL''"

text \<open>
  The body of the loop of \<^verbatim>\<open>setStatement\<close> up to the append: the switch on
  \<^verbatim>\<open>reflect.ValueOf(val).Kind()\<close> with its cases \<^verbatim>\<open>reflect.String\<close>,
  \<^verbatim>\<open>reflect.Interface\<close> and \<^verbatim>\<open>default\<close>.
\<close>

definition sqlValue :: "go_value \<Rightarrow> string" where
  "sqlValue val =
     (case ValueOf_Kind val of
        reflect_String \<Rightarrow> quoted (Sprintf_s val)
      | reflect_Interface \<Rightarrow> interface_case val
      | _ \<Rightarrow> Sprintf_v val)"

section \<open>strings.Replacer\<close>

datatype panic =
    OddArgCount        \<comment> \<open>\<^verbatim>\<open>strings.NewReplacer: odd argument count\<close>\<close>
  | IndexOutOfRange    \<comment> \<open>index out of range\<close>
  | InterfaceConversion  \<comment> \<open>a failed type assertion \<^verbatim>\<open>val.(opentracing.Span)\<close>\<close>

text \<open>
  \<^verbatim>\<open>strings.NewReplacer(oldnew...)\<close> takes old/new pairs as a flat argument list and
  panics on an odd number of arguments.
\<close>

fun NewReplacer :: "string list \<Rightarrow> panic + (string \<times> string) list" where
  "NewReplacer [] = Inr []"
| "NewReplacer [x] = Inl OddArgCount"
| "NewReplacer (old # new # rest) =
     (case NewReplacer rest of
        Inl e \<Rightarrow> Inl e
      | Inr r \<Rightarrow> Inr ((old, new) # r))"

text \<open>
  The match at the head of \<open>s\<close>: of the old strings that are a prefix of \<open>s\<close>, the one that
  comes first in argument order, with its replacement and its length. \<open>ignoreRoot\<close> rules
  out the empty old string (after an empty match at the same position).
\<close>

fun lookup :: "(string \<times> string) list \<Rightarrow> string \<Rightarrow> bool \<Rightarrow> (string \<times> nat) option" where
  "lookup [] s ignoreRoot = None"
| "lookup ((old, new) # r) s ignoreRoot =
     (if prefix old s \<and> \<not> (ignoreRoot \<and> old = []) then Some (new, length old)
      else lookup r s ignoreRoot)"

text \<open>
  \<^verbatim>\<open>Replacer.Replace\<close>: replacements are performed in the order they appear in the target
  string, without overlapping matches, and the old strings are compared in argument order.
  The text of a replacement is written to the output and the scan goes on behind the match
  in the target string.
\<close>

function Replace_from :: "(string \<times> string) list \<Rightarrow> bool \<Rightarrow> string \<Rightarrow> string" where
  "Replace_from r prevMatchEmpty s =
     (case lookup r s prevMatchEmpty of
        Some (val, keylen) \<Rightarrow> val @ Replace_from r (keylen = 0) (drop keylen s)
      | None \<Rightarrow>
          (case s of
             [] \<Rightarrow> []
           | c # cs \<Rightarrow> c # Replace_from r False cs))"
  by pat_completeness auto
termination
proof (relation "measure (\<lambda>(r, prevMatchEmpty, s). 2 * length s + (if prevMatchEmpty then 0 else 1))")
  show "wf (measure (\<lambda>(r, prevMatchEmpty, s). 2 * length s + (if prevMatchEmpty then 0 else 1)))"
    by simp
next
  fix r :: "(string \<times> string) list" and prevMatchEmpty :: bool and s :: string
    and x2 :: "string \<times> nat" and val :: string and keylen :: nat
  assume "lookup r s prevMatchEmpty = Some x2" and "(val, keylen) = x2"
  then have found: "lookup r s prevMatchEmpty = Some (val, keylen)"
    by simp
  have "lookup r s b = Some (val, keylen) \<Longrightarrow>
          keylen \<le> length s \<and> (if b then 0 < keylen else True)" for b
    by (induction r s b rule: lookup.induct) (auto simp: prefix_def split: if_splits)
  from this [OF found]
  show "((r, keylen = 0, drop keylen s), (r, prevMatchEmpty, s))
          \<in> measure (\<lambda>(r, prevMatchEmpty, s). 2 * length s + (if prevMatchEmpty then 0 else 1))"
    by (cases prevMatchEmpty; cases "keylen = 0") auto
next
  fix r :: "(string \<times> string) list" and prevMatchEmpty :: bool and s :: string
    and c :: char and cs :: string
  assume "s = c # cs"
  then show "((r, False, cs), (r, prevMatchEmpty, s))
          \<in> measure (\<lambda>(r, prevMatchEmpty, s). 2 * length s + (if prevMatchEmpty then 0 else 1))"
    by simp
qed

declare Replace_from.simps [simp del]

definition Replace :: "(string \<times> string) list \<Rightarrow> string \<Rightarrow> string" where
  "Replace r s = Replace_from r False s"

section \<open>setStatement\<close>

text \<open>
  The part of \<^verbatim>\<open>gorm.Scope\<close> the callbacks read: the store behind \<^verbatim>\<open>Get\<close> and \<^verbatim>\<open>Set\<close>, the
  statement and its bound values, and what \<^verbatim>\<open>TableName()\<close>, \<^verbatim>\<open>InstanceID()\<close>,
  \<^verbatim>\<open>DB().Dialect().GetName()\<close>, \<^verbatim>\<open>DB().RowsAffected\<close> and \<^verbatim>\<open>DB().Error\<close> return
  (\<open>None\<close> for a nil error, otherwise the error's message).
\<close>

type_synonym span = nat

datatype store_value =
    SpanValue span     \<comment> \<open>a value that implements \<^verbatim>\<open>opentracing.Span\<close>\<close>
  | OtherValue         \<comment> \<open>any other value\<close>

record scope =
  db_values :: "string \<rightharpoonup> store_value"
  SQL :: string
  SQLVars :: "go_value list"
  TableName :: string
  InstanceID :: string
  DialectName :: string
  RowsAffected :: "64 word"
  Error :: "string option"

text \<open>\<^verbatim>\<open>fmt.Sprintf(`$%d`, i)\<close>\<close>

definition placeholder :: "nat \<Rightarrow> string" where
  "placeholder i = CHR ''$'' # decimal i"

text \<open>
  The loop \<^verbatim>\<open>for i := 1; i <= len(scope.SQLVars); i++\<close>, which appends the placeholder
  and the literal text of \<^verbatim>\<open>scope.SQLVars[i-1]\<close> to \<^verbatim>\<open>replacer\<close>.
\<close>

function replacer_loop :: "go_value list \<Rightarrow> nat \<Rightarrow> string list \<Rightarrow> panic + string list" where
  "replacer_loop vars i replacer =
     (if i \<le> length vars then
        (if 1 \<le> i \<and> i - 1 < length vars then
           replacer_loop vars (i + 1) (replacer @ [placeholder i, sqlValue (vars ! (i - 1))])
         else Inl IndexOutOfRange)
      else Inr replacer)"
  by pat_completeness auto
termination
  by (relation "measure (\<lambda>(vars, i, replacer). Suc (length vars) - i)") auto

declare replacer_loop.simps [simp del]

definition setStatement :: "scope \<Rightarrow> panic + string" where
  "setStatement sc =
     (case replacer_loop (SQLVars sc) 1 [] of
        Inl e \<Rightarrow> Inl e
      | Inr replacer \<Rightarrow>
          (case NewReplacer replacer of
             Inl e \<Rightarrow> Inl e
           | Inr r \<Rightarrow> Inr (Replace r (SQL sc))))"

text \<open>
  The older file \<^verbatim>\<open>otgorm.go\<close> builds the same replacer inside \<^verbatim>\<open>after\<close>; its switch
  differs only in \<^verbatim>\<open>case reflect.Interface\<close>, where a \<^verbatim>\<open>time.Time\<close> is printed with
  \<^verbatim>\<open>'%v'\<close> and the text of any other value stays empty.
\<close>

fun interface_case_inline :: "go_value \<Rightarrow> string" where
  "interface_case_inline (TimeTime t) = quoted (Sprintf_v (TimeTime t))"
| "interface_case_inline _ = []"

definition sqlValue_inline :: "go_value \<Rightarrow> string" where
  "sqlValue_inline val =
     (case ValueOf_Kind val of
        reflect_String \<Rightarrow> quoted (Sprintf_s val)
      | reflect_Interface \<Rightarrow> interface_case_inline val
      | _ \<Rightarrow> Sprintf_v val)"

section \<open>The span lifecycle\<close>

text \<open>
  The tracer is outside the package. It is modelled by the calls it receives, in order:
  \<^verbatim>\<open>StartSpan\<close> hands out the next span handle, \<^verbatim>\<open>SetTag\<close> and \<^verbatim>\<open>Finish\<close> are recorded.
\<close>

datatype tag_value =
    TagString string
  | TagBool bool
  | TagInt64 "64 word"
  | TagError string      \<comment> \<open>an \<^verbatim>\<open>error\<close> value, by its message\<close>

datatype tracer_call =
    StartSpan string span span    \<comment> \<open>operation name, parent span, span returned\<close>
  | SetTag span string tag_value
  | Finish span

record tracer =
  calls :: "tracer_call list"
  next_span :: span

definition tracer_StartSpan :: "tracer \<Rightarrow> string \<Rightarrow> span \<Rightarrow> span \<times> tracer" where
  "tracer_StartSpan tr name parent =
     (next_span tr,
      tr\<lparr>calls := calls tr @ [StartSpan name parent (next_span tr)],
         next_span := Suc (next_span tr)\<rparr>)"

definition span_SetTag :: "tracer \<Rightarrow> span \<Rightarrow> string \<Rightarrow> tag_value \<Rightarrow> tracer" where
  "span_SetTag tr sp key v = tr\<lparr>calls := calls tr @ [SetTag sp key v]\<rparr>"

definition span_Finish :: "tracer \<Rightarrow> span \<Rightarrow> tracer" where
  "span_Finish tr sp = tr\<lparr>calls := calls tr @ [Finish sp]\<rparr>"

definition parentSpanGormKey :: string where
  "parentSpanGormKey = ''opentracingParentSpan''"

definition spanGormKey :: string where
  "spanGormKey = ''opentracingSpan''"

text \<open>\<^verbatim>\<open>scope.HasError()\<close>\<close>

definition HasError :: "scope \<Rightarrow> bool" where
  "HasError sc = (Error sc \<noteq> None)"

text \<open>
  \<^verbatim>\<open>before\<close>: without a value under \<^verbatim>\<open>parentSpanGormKey\<close> it returns at once; otherwise
  it starts the span \<^verbatim>\<open>sql\<close> as a child of the parent, sets \<^verbatim>\<open>db.type\<close> and
  \<^verbatim>\<open>db.instance\<close> (the tags \<^verbatim>\<open>ext.DBType\<close> and \<^verbatim>\<open>ext.DBInstance\<close>) and stores the span
  under \<^verbatim>\<open>spanGormKey\<close>.
\<close>

definition before :: "scope \<Rightarrow> tracer \<Rightarrow> panic + scope \<times> tracer" where
  "before sc tr =
     (case db_values sc parentSpanGormKey of
        None \<Rightarrow> Inr (sc, tr)
      | Some val \<Rightarrow>
          (case val of
             OtherValue \<Rightarrow> Inl InterfaceConversion
           | SpanValue parentSpan \<Rightarrow>
               (case tracer_StartSpan tr ''sql'' parentSpan of
                  (sp, tr1) \<Rightarrow>
                    let tr2 = span_SetTag tr1 sp ''db.type'' (TagString (DialectName sc));
                        tr3 = span_SetTag tr2 sp ''db.instance'' (TagString (InstanceID sc))
                    in Inr (sc\<lparr>db_values := (db_values sc)(spanGormKey \<mapsto> SpanValue sp)\<rparr>, tr3))))"

text \<open>
  \<^verbatim>\<open>strings.Split(s, sep)\<close> for a separator of one byte: the pieces of \<open>s\<close> between the
  occurrences of \<open>sep\<close>; there is always at least one piece.
\<close>

fun Split :: "string \<Rightarrow> char \<Rightarrow> string list" where
  "Split [] sep = [[]]"
| "Split (c # cs) sep =
     (if c = sep then [] # Split cs sep
      else (case Split cs sep of
              [] \<Rightarrow> [[c]]
            | piece # pieces \<Rightarrow> (c # piece) # pieces))"

text \<open>
  \<^verbatim>\<open>strings.ToUpper\<close>. On a text of ASCII bytes only (every byte below \<^verbatim>\<open>utf8.RuneSelf\<close>,
  0x80) the letters a to z are mapped to A to Z and every other byte is kept. Any other text
  goes through \<^verbatim>\<open>strings.Map(unicode.ToUpper, s)\<close>, which decodes UTF-8 and uses the case
  tables of package \<^verbatim>\<open>unicode\<close>. Those tables are not part of this package and are not
  modelled: the mapping is a parameter, \<open>Map_ToUpper\<close>, of \<^verbatim>\<open>ToUpper\<close> and of the callbacks
  that reach it, so that what is proved holds whatever it does.
\<close>

type_synonym unicode_mapping = "string \<Rightarrow> string"

definition ToUpper_byte :: "char \<Rightarrow> char" where
  "ToUpper_byte c =
     (case map_of (zip ''abcdefghijklmnopqrstuvwxyz'' ''ABCDEFGHIJKLMNOPQRSTUVWXYZ'') c of
        None \<Rightarrow> c
      | Some u \<Rightarrow> u)"

definition isASCII :: "string \<Rightarrow> bool" where
  "isASCII s = list_all (\<lambda>c. (of_char c :: nat) < 128) s"

definition ToUpper :: "unicode_mapping \<Rightarrow> string \<Rightarrow> string" where
  "ToUpper Map_ToUpper s = (if isASCII s then map ToUpper_byte s else Map_ToUpper s)"

text \<open>
  The statement \<^verbatim>\<open>if operation == "" { operation = strings.ToUpper(strings.Split(scope.SQL, " ")[0]) }\<close>
  of \<^verbatim>\<open>after\<close>; indexing an empty slice would panic.
\<close>

definition operation_of :: "unicode_mapping \<Rightarrow> scope \<Rightarrow> string \<Rightarrow> panic + string" where
  "operation_of Map_ToUpper sc operation =
     (if operation = [] then
        (case Split (SQL sc) CHR '' '' of
           [] \<Rightarrow> Inl IndexOutOfRange
         | first # _ \<Rightarrow> Inr (ToUpper Map_ToUpper first))
      else Inr operation)"

text \<open>
  \<^verbatim>\<open>after\<close>: without a value under \<^verbatim>\<open>spanGormKey\<close> it returns at once; otherwise it sets
  the tags, the statement of \<^verbatim>\<open>setStatement\<close> among them, and finishes the span. It does
  not change the scope.
\<close>

definition after ::
  "unicode_mapping \<Rightarrow> scope \<Rightarrow> string \<Rightarrow> tracer \<Rightarrow> panic + tracer" where
  "after Map_ToUpper sc operation tr =
     (case db_values sc spanGormKey of
        None \<Rightarrow> Inr tr
      | Some val \<Rightarrow>
          (case val of
             OtherValue \<Rightarrow> Inl InterfaceConversion
           | SpanValue sp \<Rightarrow>
               (case operation_of Map_ToUpper sc operation of
                  Inl e \<Rightarrow> Inl e
                | Inr operation' \<Rightarrow>
                    let tr1 = span_SetTag tr sp ''error'' (TagBool (HasError sc));
                        tr2 = span_SetTag tr1 sp ''db.table'' (TagString (TableName sc));
                        tr3 = span_SetTag tr2 sp ''db.method'' (TagString operation');
                        tr4 = span_SetTag tr3 sp ''db.count'' (TagInt64 (RowsAffected sc));
                        tr5 = (case Error sc of
                                 None \<Rightarrow> tr4
                               | Some err \<Rightarrow> span_SetTag tr4 sp ''db.err'' (TagError err))
                    in (case setStatement sc of
                          Inl e \<Rightarrow> Inl e
                        | Inr statement \<Rightarrow>
                            Inr (span_Finish
                                   (span_SetTag tr5 sp ''db.statement'' (TagString statement))
                                   sp)))))"

text \<open>The callbacks registered for the five kinds of operation.\<close>

definition afterCreate :: "unicode_mapping \<Rightarrow> scope \<Rightarrow> tracer \<Rightarrow> panic + tracer" where
  "afterCreate Map_ToUpper sc tr = after Map_ToUpper sc ''INSERT'' tr"

definition afterQuery :: "unicode_mapping \<Rightarrow> scope \<Rightarrow> tracer \<Rightarrow> panic + tracer" where
  "afterQuery Map_ToUpper sc tr = after Map_ToUpper sc ''SELECT'' tr"

definition afterUpdate :: "unicode_mapping \<Rightarrow> scope \<Rightarrow> tracer \<Rightarrow> panic + tracer" where
  "afterUpdate Map_ToUpper sc tr = after Map_ToUpper sc ''UPDATE'' tr"

definition afterDelete :: "unicode_mapping \<Rightarrow> scope \<Rightarrow> tracer \<Rightarrow> panic + tracer" where
  "afterDelete Map_ToUpper sc tr = after Map_ToUpper sc ''DELETE'' tr"

definition afterRowQuery :: "unicode_mapping \<Rightarrow> scope \<Rightarrow> tracer \<Rightarrow> panic + tracer" where
  "afterRowQuery Map_ToUpper sc tr = after Map_ToUpper sc [] tr"

text \<open>
  A host that runs \<^verbatim>\<open>before\<close> once and then \<^verbatim>\<open>after\<close> \<open>n\<close> times on the same scope, stopping
  at the first panic.
\<close>

fun afters ::
  "unicode_mapping \<Rightarrow> nat \<Rightarrow> scope \<Rightarrow> string \<Rightarrow> tracer \<Rightarrow> panic + tracer" where
  "afters Map_ToUpper 0 sc operation tr = Inr tr"
| "afters Map_ToUpper (Suc n) sc operation tr =
     (case after Map_ToUpper sc operation tr of
        Inl e \<Rightarrow> Inl e
      | Inr tr1 \<Rightarrow> afters Map_ToUpper n sc operation tr1)"

definition before_then_afters ::
  "unicode_mapping \<Rightarrow> nat \<Rightarrow> scope \<Rightarrow> string \<Rightarrow> tracer \<Rightarrow> panic + tracer" where
  "before_then_afters Map_ToUpper n sc operation tr =
     (case before sc tr of
        Inl e \<Rightarrow> Inl e
      | Inr (sc1, tr1) \<Rightarrow> afters Map_ToUpper n sc1 operation tr1)"

text \<open>The calls that the tracer \<open>tr\<close> received after it was in the state \<open>tr0\<close>.\<close>

definition calls_since :: "tracer \<Rightarrow> tracer \<Rightarrow> tracer_call list" where
  "calls_since tr0 tr = drop (length (calls tr0)) (calls tr)"

fun is_StartSpan :: "tracer_call \<Rightarrow> bool" where
  "is_StartSpan (StartSpan _ _ _) = True"
| "is_StartSpan _ = False"

fun is_Finish :: "tracer_call \<Rightarrow> bool" where
  "is_Finish (Finish _) = True"
| "is_Finish _ = False"

section \<open>The statement as the specification describes it\<close>

text \<open>
  The pairs that the loop of \<^verbatim>\<open>setStatement\<close> hands to \<^verbatim>\<open>strings.NewReplacer\<close>, in one
  expression: position \<open>i\<close>, counted from 1, with the literal text of its argument.
\<close>

definition replacer_pairs :: "go_value list \<Rightarrow> (string \<times> string) list" where
  "replacer_pairs vars = map (\<lambda>(i, val). (placeholder i, sqlValue val)) (enumerate 1 vars)"

text \<open>
  The specification asks for a simultaneous, non-overlapping, single-pass substitution.
  Written out: the template is cut into tokens by looking at the template and the
  placeholder texts only; then each token is written, a placeholder as the text bound to
  it. What has been written is not read again. Where several placeholder texts match at
  one position the first in argument order is taken, as \<^verbatim>\<open>strings.Replacer\<close> does.
\<close>

datatype token =
    Literal char
  | Placeholder nat     \<comment> \<open>the position of the placeholder in the list, counted from 0\<close>

fun lookup_key :: "string list \<Rightarrow> string \<Rightarrow> bool \<Rightarrow> (nat \<times> nat) option" where
  "lookup_key [] s ignoreRoot = None"
| "lookup_key (old # olds) s ignoreRoot =
     (if prefix old s \<and> \<not> (ignoreRoot \<and> old = []) then Some (0, length old)
      else (case lookup_key olds s ignoreRoot of
              None \<Rightarrow> None
            | Some (i, keylen) \<Rightarrow> Some (Suc i, keylen)))"

function tokens :: "string list \<Rightarrow> bool \<Rightarrow> string \<Rightarrow> token list" where
  "tokens olds prevMatchEmpty s =
     (case lookup_key olds s prevMatchEmpty of
        Some (i, keylen) \<Rightarrow> Placeholder i # tokens olds (keylen = 0) (drop keylen s)
      | None \<Rightarrow>
          (case s of
             [] \<Rightarrow> []
           | c # cs \<Rightarrow> Literal c # tokens olds False cs))"
  by pat_completeness auto
termination
proof (relation "measure (\<lambda>(olds, prevMatchEmpty, s). 2 * length s + (if prevMatchEmpty then 0 else 1))")
  show "wf (measure (\<lambda>(olds, prevMatchEmpty, s). 2 * length s + (if prevMatchEmpty then 0 else 1)))"
    by simp
next
  fix olds :: "string list" and prevMatchEmpty :: bool and s :: string
    and x2 :: "nat \<times> nat" and i :: nat and keylen :: nat
  assume "lookup_key olds s prevMatchEmpty = Some x2" and "(i, keylen) = x2"
  then have found: "lookup_key olds s prevMatchEmpty = Some (i, keylen)"
    by simp
  have "lookup_key olds s b = Some (j, keylen) \<Longrightarrow>
          keylen \<le> length s \<and> (if b then 0 < keylen else True)" for b j
    by (induction olds s b arbitrary: j rule: lookup_key.induct)
       (auto simp: prefix_def split: if_splits option.splits)
  from this [OF found]
  show "((olds, keylen = 0, drop keylen s), (olds, prevMatchEmpty, s))
          \<in> measure (\<lambda>(olds, prevMatchEmpty, s). 2 * length s + (if prevMatchEmpty then 0 else 1))"
    by (cases prevMatchEmpty; cases "keylen = 0") auto
next
  fix olds :: "string list" and prevMatchEmpty :: bool and s :: string
    and c :: char and cs :: string
  assume "s = c # cs"
  then show "((olds, False, cs), (olds, prevMatchEmpty, s))
          \<in> measure (\<lambda>(olds, prevMatchEmpty, s). 2 * length s + (if prevMatchEmpty then 0 else 1))"
    by simp
qed

declare tokens.simps [simp del]

fun emit :: "string list \<Rightarrow> token \<Rightarrow> string" where
  "emit news (Literal c) = [c]"
| "emit news (Placeholder i) = news ! i"

definition simultaneous_subst :: "string list \<Rightarrow> string list \<Rightarrow> string \<Rightarrow> string" where
  "simultaneous_subst olds news s = concat (map (emit news) (tokens olds False s))"

text \<open>
  The specification derives the method from "the first whitespace-delimited token" of the
  template: the text between leading white space and the next white space.
\<close>

definition is_space :: "char \<Rightarrow> bool" where
  "is_space c = (c \<in> set [CHR '' '', CHR 0x09, CHR 0x0A, CHR 0x0B, CHR 0x0C, CHR 0x0D])"

definition first_token :: "string \<Rightarrow> string" where
  "first_token s = takeWhile (\<lambda>c. \<not> is_space c) (dropWhile is_space s)"

section \<open>Auxiliary notions and example scopes\<close>

text \<open>A placeholder text: a dollar sign, then characters that are not a dollar sign.\<close>

definition dollar_key :: "string \<Rightarrow> bool" where
  "dollar_key old = (\<exists>ds. old = CHR ''$'' # ds \<and> CHR ''$'' \<notin> set ds)"

text \<open>A scope as the host hands it to the callbacks, with a statement and its arguments.\<close>

definition scope_of :: "string \<Rightarrow> go_value list \<Rightarrow> scope" where
  "scope_of sql vars =
     \<lparr>db_values = Map.empty, SQL = sql, SQLVars = vars, TableName = ''t'',
      InstanceID = ''db1'', DialectName = ''postgres'', RowsAffected = 1, Error = None\<rparr>"

definition ten_args :: scope where
  "ten_args =
     scope_of ''x = $10''
       [GoString ''a'', GoInt 2, GoInt 3, GoInt 4, GoInt 5, GoInt 6, GoInt 7, GoInt 8,
        GoInt 9, GoString ''j'']"


text \<open>
  A Unicode mapping for the examples, whose templates are ASCII: \<^verbatim>\<open>ToUpper\<close> does not
  apply it to them.
\<close>

definition unmapped :: unicode_mapping where
  "unmapped s = s"

definition zero_time :: time where
  "zero_time = Time ''0001-01-01 00:00:00 +0000 UTC''"

definition some_time :: time where
  "some_time = Time ''2009-11-10 23:00:00 +0000 UTC''"

text \<open>
  \<^verbatim>\<open>SetSpanToGorm\<close>: with a nil context, or a context that carries no span, the handle is
  returned as it is; otherwise the span of the context is stored under
  \<^verbatim>\<open>parentSpanGormKey\<close>.
\<close>

datatype go_context =
    NilContext
  | Context "span option"     \<comment> \<open>what \<^verbatim>\<open>opentracing.SpanFromContext\<close> finds\<close>

definition SetSpanToGorm :: "go_context \<Rightarrow> scope \<Rightarrow> scope" where
  "SetSpanToGorm ctx db =
     (case ctx of
        NilContext \<Rightarrow> db
      | Context None \<Rightarrow> db
      | Context (Some parentSpan) \<Rightarrow>
          db\<lparr>db_values := (db_values db)(parentSpanGormKey \<mapsto> SpanValue parentSpan)\<rparr>)"

text \<open>A tracer that has handed out the spans 0 to 7 and has received no call since.\<close>

definition tracer0 :: tracer where
  "tracer0 = \<lparr>calls = [], next_span = 8\<rparr>"

text \<open>The calls of a run that started at \<open>tr0\<close>; none are counted for a run that panicked.\<close>

definition run_calls :: "tracer \<Rightarrow> panic + tracer \<Rightarrow> tracer_call list" where
  "run_calls tr0 run =
     (case run of
        Inl e \<Rightarrow> []
      | Inr tr \<Rightarrow> calls_since tr0 tr)"

text \<open>The number of \<^verbatim>\<open>Finish\<close> calls among them.\<close>

definition finish_count :: "tracer \<Rightarrow> panic + tracer \<Rightarrow> nat" where
  "finish_count tr0 run = length (filter is_Finish (run_calls tr0 run))"

text \<open>
  The calls of one run of \<^verbatim>\<open>after\<close> that finds the span \<open>sp\<close> stored, given the method
  and the statement it computed.
\<close>

definition after_calls ::
  "scope \<Rightarrow> span \<Rightarrow> string \<Rightarrow> string \<Rightarrow> tracer_call list" where
  "after_calls sc sp method statement =
     [SetTag sp ''error'' (TagBool (HasError sc)),
      SetTag sp ''db.table'' (TagString (TableName sc)),
      SetTag sp ''db.method'' (TagString method),
      SetTag sp ''db.count'' (TagInt64 (RowsAffected sc))] @
     (case Error sc of
        None \<Rightarrow> []
      | Some err \<Rightarrow> [SetTag sp ''db.err'' (TagError err)]) @
     [SetTag sp ''db.statement'' (TagString statement), Finish sp]"

text \<open>The values of the tag \<^verbatim>\<open>db.method\<close> among calls, in order.\<close>

fun method_tag :: "tracer_call \<Rightarrow> string option" where
  "method_tag (SetTag sp key (TagString v)) = (if key = ''db.method'' then Some v else None)"
| "method_tag _ = None"

definition method_tags :: "tracer_call list \<Rightarrow> string list" where
  "method_tags cs = List.map_filter method_tag cs"

text \<open>A scope in which \<^verbatim>\<open>before\<close> has stored the span \<open>sp\<close>.\<close>

definition with_span :: "span \<Rightarrow> scope \<Rightarrow> scope" where
  "with_span sp sc = sc\<lparr>db_values := (db_values sc)(spanGormKey \<mapsto> SpanValue sp)\<rparr>"

section \<open>Properties of the statement reconstruction\<close>

lemma NewReplacer_append:
  "NewReplacer xs = Inr r \<Longrightarrow> NewReplacer (xs @ [old, new]) = Inr (r @ [(old, new)])"
  by (induction xs arbitrary: r rule: NewReplacer.induct) (auto split: sum.splits)

lemma replacer_loop_pairs:
  "NewReplacer acc = Inr r \<Longrightarrow> k \<le> length vars \<Longrightarrow>
   \<exists>replacer. replacer_loop vars (Suc k) acc = Inr replacer \<and>
     NewReplacer replacer =
       Inr (r @ map (\<lambda>(j, val). (placeholder j, sqlValue val)) (enumerate (Suc k) (drop k vars)))"
proof (induction "length vars - k" arbitrary: k acc r)
  case 0
  then have k: "k = length vars" by simp
  show ?case using 0 k by (subst replacer_loop.simps) simp
next
  case (Suc n)
  then have lt: "k < length vars" by simp
  have d: "drop k vars = vars ! k # drop (Suc k) vars"
    using lt by (simp add: Cons_nth_drop_Suc)
  have n: "n = length vars - Suc k" using Suc.hyps(2) by simp
  have le: "Suc k \<le> length vars" using lt by simp
  from Suc.hyps(1) [OF n NewReplacer_append [OF Suc.prems(1)] le]
  obtain rep where rep:
    "replacer_loop vars (Suc (Suc k)) (acc @ [placeholder (Suc k), sqlValue (vars ! k)]) = Inr rep"
    "NewReplacer rep = Inr ((r @ [(placeholder (Suc k), sqlValue (vars ! k))]) @
        map (\<lambda>(j, val). (placeholder j, sqlValue val)) (enumerate (Suc (Suc k)) (drop (Suc k) vars)))"
    by blast
  have "replacer_loop vars (Suc k) acc = Inr rep"
    using lt rep(1) by (subst replacer_loop.simps) simp
  moreover have "NewReplacer rep =
      Inr (r @ map (\<lambda>(j, val). (placeholder j, sqlValue val)) (enumerate (Suc k) (drop k vars)))"
    using rep(2) d by simp
  ultimately show ?case by blast
qed

lemma replacer_loop_NewReplacer:
  "\<exists>replacer. replacer_loop vars 1 [] = Inr replacer \<and>
      NewReplacer replacer = Inr (replacer_pairs vars)"
proof -
  have "NewReplacer [] = Inr []" by simp
  from replacer_loop_pairs [OF this, of 0 vars]
  show ?thesis by (simp add: replacer_pairs_def)
qed

lemma setStatement_Replace:
  "setStatement sc = Inr (Replace (replacer_pairs (SQLVars sc)) (SQL sc))"
  using replacer_loop_NewReplacer [of "SQLVars sc"]
  by (auto simp: setStatement_def)

lemma ValueOf_Kind_not_Interface: "ValueOf_Kind val \<noteq> reflect_Interface"
  by (cases val) simp_all

lemma sqlValue_reachable:
  "sqlValue val = (case val of GoString s \<Rightarrow> quoted s | _ \<Rightarrow> Sprintf_v val)"
  by (cases val) (simp_all add: sqlValue_def)

lemma sqlValue_inline_eq: "sqlValue_inline val = sqlValue val"
  by (cases val) (simp_all add: sqlValue_def sqlValue_inline_def)

lemma digit_not_dollar: "n < 10 \<Longrightarrow> ''0123456789'' ! n \<noteq> CHR ''$''"
proof -
  assume "n < 10"
  then have "''0123456789'' ! n \<in> set ''0123456789''"
    by (intro nth_mem) simp
  then show ?thesis by auto
qed

lemma decimal_no_dollar: "CHR ''$'' \<notin> set (decimal n)"
proof (induction n rule: decimal.induct)
  case (1 n)
  show ?case
  proof (cases "n < 10")
    case True
    then show ?thesis using digit_not_dollar [of n] by (subst decimal.simps) simp
  next
    case False
    have "n mod 10 < 10" by simp
    from digit_not_dollar [OF this] 1 False
    show ?thesis by (subst decimal.simps) simp
  qed
qed

lemma decimal_digit: "n < 10 \<Longrightarrow> decimal n = [''0123456789'' ! n]"
  by (subst decimal.simps) simp

lemma digit_inj: "m < 10 \<Longrightarrow> n < 10 \<Longrightarrow> ''0123456789'' ! m = ''0123456789'' ! n \<Longrightarrow> m = n"
proof -
  have "distinct ''0123456789''" by simp
  moreover assume "m < 10" "n < 10" "''0123456789'' ! m = ''0123456789'' ! n"
  ultimately show "m = n" by (simp add: nth_eq_iff_index_eq)
qed

lemma dollar_key_placeholder: "dollar_key (placeholder i)"
  by (simp add: dollar_key_def placeholder_def decimal_no_dollar)

lemma replacer_pairs_dollar_keys: "list_all (\<lambda>(old, new). dollar_key old) (replacer_pairs vars)"
  by (auto simp: replacer_pairs_def list_all_iff dollar_key_placeholder)

lemma prefix_before_dollar:
  "CHR ''$'' \<notin> set ds \<Longrightarrow> prefix ds (p @ CHR ''$'' # rest) \<longleftrightarrow> prefix ds p"
proof (induction p arbitrary: ds)
  case Nil
  then show ?case by (cases ds) auto
next
  case (Cons c p)
  then show ?case by (cases ds) auto
qed

lemma dollar_key_prefix:
  "dollar_key old \<Longrightarrow> pre \<noteq> [] \<Longrightarrow> prefix old (pre @ CHR ''$'' # rest) \<longleftrightarrow> prefix old pre"
  by (cases pre) (auto simp: dollar_key_def prefix_before_dollar)

lemma lookup_before_dollar:
  "list_all (\<lambda>(old, new). dollar_key old) r \<Longrightarrow> pre \<noteq> [] \<Longrightarrow>
     lookup r (pre @ CHR ''$'' # rest) b = lookup r pre b"
  by (induction r) (auto simp: dollar_key_prefix)

lemma lookup_Nil:
  "list_all (\<lambda>(old, new). dollar_key old) r \<Longrightarrow> lookup r [] b = None"
  by (induction r) (auto simp: dollar_key_def)

lemma lookup_keylen:
  "lookup r s b = Some (val, keylen) \<Longrightarrow> keylen \<le> length s"
  by (induction r s b rule: lookup.induct) (auto simp: prefix_def split: if_splits)

lemma lookup_keylen_pos:
  "list_all (\<lambda>(old, new). dollar_key old) r \<Longrightarrow> lookup r s b = Some (val, keylen) \<Longrightarrow> 0 < keylen"
  by (induction r) (auto simp: dollar_key_def split: if_splits)

lemma Replace_from_split:
  assumes wf: "list_all (\<lambda>(old, new). dollar_key old) r"
    and hit: "lookup r (CHR ''$'' # ds @ post) False = Some (v, Suc (length ds))"
  shows "Replace_from r False (pre @ CHR ''$'' # ds @ post) =
           Replace_from r False pre @ v @ Replace_from r False post"
proof (induction "length pre" arbitrary: pre rule: less_induct)
  case less
  show ?case
  proof (cases pre)
    case Nil
    have "Replace_from r False [] = []"
      by (subst Replace_from.simps) (simp add: lookup_Nil [OF wf])
    moreover have "Replace_from r False (CHR ''$'' # ds @ post) = v @ Replace_from r False post"
      by (subst Replace_from.simps) (simp add: hit)
    ultimately show ?thesis using Nil by simp
  next
    case (Cons c cs)
    then have ne: "pre \<noteq> []" by simp
    have lk: "lookup r (pre @ CHR ''$'' # ds @ post) False = lookup r pre False"
      by (rule lookup_before_dollar [OF wf ne])
    show ?thesis
    proof (cases "lookup r pre False")
      case None
      have "length cs < length pre" using Cons by simp
      from less [OF this] None lk Cons show ?thesis
        by (subst Replace_from.simps, subst (2) Replace_from.simps) simp
    next
      case (Some a)
      obtain val keylen where a: "a = (val, keylen)" by (cases a)
      have pos: "0 < keylen" using lookup_keylen_pos [OF wf] Some a by blast
      have le: "keylen \<le> length pre" using lookup_keylen Some a by blast
      have "length (drop keylen pre) < length pre" using pos ne by simp
      from less [OF this] Some a lk pos le show ?thesis
        by (subst Replace_from.simps, subst (2) Replace_from.simps) simp
    qed
  qed
qed

lemma lookup_enumerate:
  "j < length xs \<Longrightarrow> k + j < 10 \<Longrightarrow>
   lookup (map (\<lambda>(i, val). (placeholder i, sqlValue val)) (enumerate k xs))
      (placeholder (k + j) @ post) b = Some (sqlValue (xs ! j), 2)"
proof (induction xs arbitrary: k j)
  case Nil
  then show ?case by simp
next
  case (Cons x xs)
  show ?case
  proof (cases j)
    case 0
    with Cons.prems show ?thesis by (simp add: placeholder_def decimal_digit)
  next
    case (Suc j')
    with Cons.prems have j': "j' < length xs" "Suc k + j' < 10" by simp_all
    have "k \<noteq> k + j" using Suc by simp
    with Cons.prems have np: "\<not> prefix (placeholder k) (placeholder (k + j) @ post)"
      using digit_inj [of k "k + j"] by (auto simp: placeholder_def decimal_digit)
    from Cons.IH [OF j'] np Suc show ?thesis by simp
  qed
qed

lemma lookup_placeholder:
  "i < length vars \<Longrightarrow> i < 9 \<Longrightarrow>
   lookup (replacer_pairs vars) (placeholder (Suc i) @ post) b = Some (sqlValue (vars ! i), 2)"
  using lookup_enumerate [of i vars 1 post b] by (simp add: replacer_pairs_def)

lemma placeholder_digit: "i < 9 \<Longrightarrow> placeholder (Suc i) = [CHR ''$'', ''0123456789'' ! Suc i]"
  by (simp add: placeholder_def decimal_digit)

lemma setStatement_placeholder:
  assumes "i < length (SQLVars sc)" "i < 9"
  shows "setStatement (sc\<lparr>SQL := pre @ placeholder (Suc i) @ post\<rparr>) =
     Inr (Replace (replacer_pairs (SQLVars sc)) pre @ sqlValue (SQLVars sc ! i) @
          Replace (replacer_pairs (SQLVars sc)) post)"
proof -
  let ?r = "replacer_pairs (SQLVars sc)"
  let ?d = "''0123456789'' ! Suc i"
  have wf: "list_all (\<lambda>(old, new). dollar_key old) ?r" by (rule replacer_pairs_dollar_keys)
  have "lookup ?r (placeholder (Suc i) @ post) False = Some (sqlValue (SQLVars sc ! i), 2)"
    by (rule lookup_placeholder [OF assms])
  then have hit: "lookup ?r (CHR ''$'' # [?d] @ post) False = Some (sqlValue (SQLVars sc ! i), Suc (length [?d]))"
    using assms(2) by (simp add: placeholder_digit)
  from Replace_from_split [OF wf hit, of pre]
  show ?thesis using assms(2)
    by (simp add: setStatement_Replace Replace_def placeholder_digit)
qed

lemma lookup_key_lookup:
  "lookup r s b =
     (case lookup_key (map fst r) s b of
        None \<Rightarrow> None
      | Some (i, keylen) \<Rightarrow> Some (map snd r ! i, keylen))"
  by (induction r) (auto split: option.splits)

lemma Replace_from_tokens:
  "Replace_from r b s = concat (map (emit (map snd r)) (tokens (map fst r) b s))"
proof (induction r b s rule: Replace_from.induct)
  case (1 r b s)
  show ?case
  proof (cases "lookup_key (map fst r) s b")
    case None
    then have lk: "lookup r s b = None" by (simp add: lookup_key_lookup)
    show ?thesis
    proof (cases s)
      case Nil
      with None lk show ?thesis
        by (subst Replace_from.simps, subst tokens.simps) simp
    next
      case (Cons c cs)
      from "1.IH"(1) [OF lk Cons] None lk Cons show ?thesis
        by (subst Replace_from.simps, subst tokens.simps) simp
    qed
  next
    case (Some a)
    obtain i keylen where a: "a = (i, keylen)" by (cases a)
    have lk: "lookup r s b = Some (map snd r ! i, keylen)"
      using Some a by (simp add: lookup_key_lookup)
    from "1.IH"(2) [OF lk refl] Some a lk show ?thesis
      by (subst Replace_from.simps, subst tokens.simps) simp
  qed
qed

lemma map_fst_enumerate:
  "map fst (map (\<lambda>(i, val). (placeholder i, sqlValue val)) (enumerate k xs)) =
     map placeholder [k..<k + length xs]"
proof (induction xs arbitrary: k)
  case Nil
  then show ?case by simp
next
  case (Cons x xs)
  have "[k..<k + length (x # xs)] = k # [Suc k..<Suc k + length xs]"
    by (simp add: upt_conv_Cons del: upt_Suc)
  with Cons [of "Suc k"] show ?case by (simp del: upt_Suc)
qed

lemma map_snd_enumerate:
  "map snd (map (\<lambda>(i, val). (placeholder i, sqlValue val)) (enumerate k xs)) = map sqlValue xs"
  by (induction xs arbitrary: k) simp_all

lemma map_fst_replacer_pairs:
  "map fst (replacer_pairs vars) = map placeholder [1..<Suc (length vars)]"
  using map_fst_enumerate [of 1 vars] by (simp add: replacer_pairs_def)

lemma map_snd_replacer_pairs:
  "map snd (replacer_pairs vars) = map sqlValue vars"
  using map_snd_enumerate [of 1 vars] by (simp add: replacer_pairs_def)

lemma lookup_not_dollar:
  "list_all (\<lambda>(old, new). dollar_key old) r \<Longrightarrow> c \<noteq> CHR ''$'' \<Longrightarrow> lookup r (c # s) b = None"
  by (induction r) (auto simp: dollar_key_def)

lemma Replace_not_dollar:
  "list_all (\<lambda>(old, new). dollar_key old) r \<Longrightarrow> c \<noteq> CHR ''$'' \<Longrightarrow>
     Replace r (c # s) = c # Replace r s"
  unfolding Replace_def
  by (subst Replace_from.simps) (simp add: lookup_not_dollar)

lemma replacer_pairs_nth:
  "i < length vars \<Longrightarrow> replacer_pairs vars ! i = (placeholder (Suc i), sqlValue (vars ! i))"
  by (simp add: replacer_pairs_def nth_enumerate_eq)

lemmas eval_simps = setStatement_def replacer_loop.simps Replace_def
  Replace_from.simps placeholder_def decimal.simps sqlValue_def fmt_int_def fmt_bool_def
  quoted_def braces_def scope_of_def

section \<open>Claims about the statement reconstruction\<close>

text \<open>
  C1. The claim: an argument that is a nullable wrapper (\<^verbatim>\<open>sql.NullTime\<close>,
  \<^verbatim>\<open>sql.NullString\<close>, \<^verbatim>\<open>sql.NullInt64\<close>, \<^verbatim>\<open>sql.NullInt32\<close>, \<^verbatim>\<open>sql.NullBool\<close>,
  \<^verbatim>\<open>sql.NullFloat64\<close>, \<^verbatim>\<open>pq.NullTime\<close>) with \<^verbatim>\<open>Valid = false\<close> is rendered as \<^verbatim>\<open>NULL\<close>.
  The code has this rule inside \<^verbatim>\<open>case reflect.Interface\<close>, a kind that
  \<^verbatim>\<open>reflect.ValueOf(val).Kind()\<close> never returns: the wrappers are structs and take the
  \<^verbatim>\<open>default\<close> case. The theorem evaluates \<^verbatim>\<open>setStatement\<close> on one invalid wrapper of each
  type: every one is printed as a struct, none as \<^verbatim>\<open>NULL\<close>.
\<close>

theorem invalid_wrappers_printed_as_structs:
  "setStatement
     (scope_of ''$1, $2, $3, $4, $5, $6, $7''
        [SqlNullTime zero_time False, SqlNullString [] False, SqlNullInt64 0 False,
         SqlNullInt32 0 False, SqlNullBool False False, SqlNullFloat64 (Float64 ''0'') False,
         PqNullTime zero_time False]) =
   Inr (''{0001-01-01 00:00:00 +0000 UTC false}, { false}, {0 false}, {0 false}, '' @
        ''{false false}, {0 false}, {0001-01-01 00:00:00 +0000 UTC false}'')"
  by (simp add: eval_simps zero_time_def)

text \<open>
  C2. The claim: a \<^verbatim>\<open>time.Time\<close>, or a valid \<^verbatim>\<open>sql.NullTime\<close> or \<^verbatim>\<open>pq.NullTime\<close>, is
  rendered as the canonical string of the time between single quotes. The code has these
  rules inside \<^verbatim>\<open>case reflect.Interface\<close> too, so they are never reached. The theorem
  evaluates \<^verbatim>\<open>setStatement\<close> on the three values: the time is printed without quotes, the
  valid wrappers as structs.
\<close>

theorem times_printed_without_quotes:
  "setStatement
     (scope_of ''created_at > $1 AND updated_at > $2 AND deleted_at > $3''
        [TimeTime some_time, SqlNullTime some_time True, PqNullTime some_time True]) =
   Inr (''created_at > 2009-11-10 23:00:00 +0000 UTC AND '' @
        ''updated_at > {2009-11-10 23:00:00 +0000 UTC true} AND '' @
        ''deleted_at > {2009-11-10 23:00:00 +0000 UTC true}'')"
  by (simp add: eval_simps some_time_def)

text \<open>
  The switch never takes \<^verbatim>\<open>case reflect.Interface\<close>: the literal text of an argument is
  the quoted string for a \<^verbatim>\<open>string\<close> and what \<^verbatim>\<open>%v\<close> prints for anything else, in
  \<^verbatim>\<open>setStatement\<close> and in the older \<^verbatim>\<open>after\<close> alike.
\<close>

lemma sqlValue_invalid_wrapper:
  "sqlValue (SqlNullTime t False) = ''{'' @ String t @ '' false}''"
  "sqlValue (SqlNullString s False) = ''{'' @ s @ '' false}''"
  "sqlValue (SqlNullInt64 i False) = ''{'' @ fmt_int (sint i) @ '' false}''"
  "sqlValue (SqlNullInt32 j False) = ''{'' @ fmt_int (sint j) @ '' false}''"
  "sqlValue (SqlNullBool b False) = ''{'' @ fmt_bool b @ '' false}''"
  "sqlValue (SqlNullFloat64 f False) = ''{'' @ shown f @ '' false}''"
  "sqlValue (PqNullTime t False) = ''{'' @ String t @ '' false}''"
  by (simp_all add: sqlValue_def braces_def fmt_bool_def)

lemma sqlValue_time:
  "sqlValue (TimeTime t) = String t"
  "sqlValue (SqlNullTime t True) = ''{'' @ String t @ '' true}''"
  "sqlValue (PqNullTime t True) = ''{'' @ String t @ '' true}''"
  by (simp_all add: sqlValue_def braces_def fmt_bool_def)

text \<open>
  C4. The substitution is simultaneous and single-pass. \<^verbatim>\<open>setStatement\<close> never panics, and
  its result is the template cut into tokens (by the template and the placeholder texts
  \<^verbatim>\<open>$1\<close> to \<^verbatim>\<open>$n\<close> alone) with each token written out once, a placeholder as the literal
  text of its argument. So the text of an argument is not scanned: for a placeholder of
  the positions 1 to 9, whatever the text of its argument is (a \<^verbatim>\<open>$k\<close> included), it
  stands in the result as it is, between the results for the text before and the text
  behind the placeholder.
\<close>

theorem setStatement_simultaneous:
  "setStatement sc =
     Inr (simultaneous_subst (map placeholder [1..<Suc (length (SQLVars sc))])
            (map sqlValue (SQLVars sc)) (SQL sc)) \<and>
   (i < length (SQLVars sc) \<and> i < 9 \<longrightarrow>
      (\<exists>a b. setStatement (sc\<lparr>SQL := pre\<rparr>) = Inr a \<and>
             setStatement (sc\<lparr>SQL := post\<rparr>) = Inr b \<and>
             setStatement (sc\<lparr>SQL := pre @ placeholder (Suc i) @ post\<rparr>) =
               Inr (a @ sqlValue (SQLVars sc ! i) @ b)))"
proof
  show "setStatement sc =
     Inr (simultaneous_subst (map placeholder [1..<Suc (length (SQLVars sc))])
            (map sqlValue (SQLVars sc)) (SQL sc))"
    by (simp add: setStatement_Replace Replace_def Replace_from_tokens simultaneous_subst_def
          map_fst_replacer_pairs map_snd_replacer_pairs)
next
  show "i < length (SQLVars sc) \<and> i < 9 \<longrightarrow>
      (\<exists>a b. setStatement (sc\<lparr>SQL := pre\<rparr>) = Inr a \<and>
             setStatement (sc\<lparr>SQL := post\<rparr>) = Inr b \<and>
             setStatement (sc\<lparr>SQL := pre @ placeholder (Suc i) @ post\<rparr>) =
               Inr (a @ sqlValue (SQLVars sc ! i) @ b))"
  proof
    assume "i < length (SQLVars sc) \<and> i < 9"
    then have i: "i < length (SQLVars sc)" "i < 9" by simp_all
    from setStatement_placeholder [OF i, of pre post]
    show "\<exists>a b. setStatement (sc\<lparr>SQL := pre\<rparr>) = Inr a \<and>
             setStatement (sc\<lparr>SQL := post\<rparr>) = Inr b \<and>
             setStatement (sc\<lparr>SQL := pre @ placeholder (Suc i) @ post\<rparr>) =
               Inr (a @ sqlValue (SQLVars sc ! i) @ b)"
      by (simp add: setStatement_Replace)
  qed
qed

theorem setStatement_simultaneous_witness:
  "0 < length (SQLVars (scope_of [] [GoString ''$2'', GoString ''x''])) \<and> (0::nat) < 9 \<and>
   setStatement (scope_of ''a = $1 AND b = $2'' [GoString ''$2'', GoString ''x'']) =
     Inr (''a = '$2' AND b = 'x'' @ [CHR 0x27])"
proof -
  let ?sc = "scope_of [] [GoString ''$2'', GoString ''x'']"
  have h: "0 < length (SQLVars ?sc) \<and> (0::nat) < 9" by (simp add: scope_of_def)
  have pre: "setStatement (?sc\<lparr>SQL := ''a = ''\<rparr>) = Inr ''a = ''"
    by (simp add: eval_simps)
  have post: "setStatement (?sc\<lparr>SQL := '' AND b = $2''\<rparr>) = Inr ('' AND b = '' @ quoted ''x'')"
    by (simp add: eval_simps)
  have whole: "?sc\<lparr>SQL := ''a = '' @ placeholder (Suc 0) @ '' AND b = $2''\<rparr> =
      scope_of ''a = $1 AND b = $2'' [GoString ''$2'', GoString ''x'']"
    by (simp add: scope_of_def placeholder_def decimal.simps)
  have v: "sqlValue (SQLVars ?sc ! 0) = quoted ''$2''"
    by (simp add: scope_of_def sqlValue_def)
  from setStatement_simultaneous [of ?sc 0 "''a = ''" "'' AND b = $2''"] h pre post whole v
  have "setStatement (scope_of ''a = $1 AND b = $2'' [GoString ''$2'', GoString ''x'']) =
     Inr (''a = '' @ quoted ''$2'' @ '' AND b = '' @ quoted ''x'')"
    by simp
  with h show ?thesis by (simp add: quoted_def)
qed




text \<open>
  C6. On the template \<^verbatim>\<open>SELECT * FROM t WHERE id = $1 AND name = $2\<close> with the arguments
  \<^verbatim>\<open>5\<close> and \<^verbatim>\<open>"ann"\<close>, \<^verbatim>\<open>setStatement\<close> returns
  \<^verbatim>\<open>SELECT * FROM t WHERE id = 5 AND name = 'ann'\<close>.
\<close>

theorem setStatement_example:
  "setStatement (scope_of ''SELECT * FROM t WHERE id = $1 AND name = $2'' [GoInt 5, GoString ''ann'']) =
     Inr (''SELECT * FROM t WHERE id = 5 AND name = '' @ [CHR 0x27] @ ''ann'' @ [CHR 0x27])"
  by (simp add: eval_simps)

text \<open>
  C10. With at least ten arguments the pairs are handed to the replacer in ascending
  order, \<^verbatim>\<open>$1\<close> first and \<^verbatim>\<open>$10\<close> tenth, and \<^verbatim>\<open>$10\<close> in a template is replaced by the
  literal text of the first argument followed by the character \<^verbatim>\<open>0\<close>; the text before and
  the text behind are rendered as they are on their own.
\<close>

theorem placeholder_10_is_first_argument_then_0:
  assumes "10 \<le> length (SQLVars sc)"
  shows "(\<exists>replacer r. replacer_loop (SQLVars sc) 1 [] = Inr replacer \<and>
            NewReplacer replacer = Inr r \<and>
            r ! 0 = (''$1'', sqlValue (SQLVars sc ! 0)) \<and>
            r ! 9 = (''$10'', sqlValue (SQLVars sc ! 9))) \<and>
         (\<exists>a b. setStatement (sc\<lparr>SQL := pre\<rparr>) = Inr a \<and>
                setStatement (sc\<lparr>SQL := post\<rparr>) = Inr b \<and>
                setStatement (sc\<lparr>SQL := pre @ ''$10'' @ post\<rparr>) =
                  Inr (a @ sqlValue (SQLVars sc ! 0) @ ''0'' @ b))"
proof
  obtain replacer where rep: "replacer_loop (SQLVars sc) 1 [] = Inr replacer"
      "NewReplacer replacer = Inr (replacer_pairs (SQLVars sc))"
    using replacer_loop_NewReplacer by blast
  have p1: "placeholder 1 = ''$1''" and p10: "placeholder 10 = ''$10''"
    by (simp_all add: placeholder_def decimal.simps)
  have lt: "0 < length (SQLVars sc)" "9 < length (SQLVars sc)" using assms by linarith+
  have "replacer_pairs (SQLVars sc) ! 0 = (''$1'', sqlValue (SQLVars sc ! 0))"
    using replacer_pairs_nth [OF lt(1)] p1 by simp
  moreover have "replacer_pairs (SQLVars sc) ! 9 = (''$10'', sqlValue (SQLVars sc ! 9))"
    using replacer_pairs_nth [OF lt(2)] p10 by simp
  ultimately show "\<exists>replacer r. replacer_loop (SQLVars sc) 1 [] = Inr replacer \<and>
            NewReplacer replacer = Inr r \<and>
            r ! 0 = (''$1'', sqlValue (SQLVars sc ! 0)) \<and>
            r ! 9 = (''$10'', sqlValue (SQLVars sc ! 9))"
    using rep by blast
next
  have i: "0 < length (SQLVars sc)" "(0::nat) < 9" using assms by linarith+
  have p1: "placeholder (Suc 0) = ''$1''"
    by (simp add: placeholder_def decimal.simps)
  have wf: "list_all (\<lambda>(old, new). dollar_key old) (replacer_pairs (SQLVars sc))"
    by (rule replacer_pairs_dollar_keys)
  have "Replace (replacer_pairs (SQLVars sc)) (''0'' @ post) =
          ''0'' @ Replace (replacer_pairs (SQLVars sc)) post"
    using Replace_not_dollar [OF wf, of "CHR ''0''" post] by simp
  with setStatement_placeholder [OF i, of pre "''0'' @ post"] p1
  show "\<exists>a b. setStatement (sc\<lparr>SQL := pre\<rparr>) = Inr a \<and>
                setStatement (sc\<lparr>SQL := post\<rparr>) = Inr b \<and>
                setStatement (sc\<lparr>SQL := pre @ ''$10'' @ post\<rparr>) =
                  Inr (a @ sqlValue (SQLVars sc ! 0) @ ''0'' @ b)"
    by (simp add: setStatement_Replace)
qed

theorem placeholder_10_witness:
  "10 \<le> length (SQLVars ten_args) \<and>
   setStatement ten_args = Inr (''x = '' @ quoted ''a'' @ ''0'') \<and>
   setStatement ten_args \<noteq> Inr (''x = '' @ quoted ''j'')"
proof -
  have h: "10 \<le> length (SQLVars ten_args)" by (simp add: ten_args_def scope_of_def)
  have pre: "setStatement (ten_args\<lparr>SQL := ''x = ''\<rparr>) = Inr ''x = ''"
    by (simp add: ten_args_def eval_simps)
  have post: "setStatement (ten_args\<lparr>SQL := []\<rparr>) = Inr []"
    by (simp add: ten_args_def eval_simps)
  have whole: "ten_args\<lparr>SQL := ''x = '' @ ''$10'' @ []\<rparr> = ten_args"
    by (simp add: ten_args_def scope_of_def)
  have v: "sqlValue (SQLVars ten_args ! 0) = quoted ''a''"
    by (simp add: ten_args_def scope_of_def sqlValue_def)
  from placeholder_10_is_first_argument_then_0 [OF h, of "''x = ''" "[]"] pre post whole v
  have "setStatement ten_args = Inr (''x = '' @ quoted ''a'' @ ''0'')" by simp
  with h show ?thesis by (simp add: quoted_def)
qed

section \<open>Properties of the callbacks\<close>

lemma Split_first: "\<exists>rest. Split s sep = takeWhile (\<lambda>c. c \<noteq> sep) s # rest"
  by (induction s) auto

lemma operation_of_eq:
  "operation_of up sc operation =
     Inr (if operation = [] then ToUpper up (takeWhile (\<lambda>c. c \<noteq> CHR '' '') (SQL sc)) else operation)"
proof -
  obtain rest where "Split (SQL sc) CHR '' '' = takeWhile (\<lambda>c. c \<noteq> CHR '' '') (SQL sc) # rest"
    using Split_first by blast
  then show ?thesis by (simp add: operation_of_def)
qed

lemma after_stored:
  assumes "db_values sc spanGormKey = Some (SpanValue sp)"
  shows "after up sc operation tr =
     Inr (tr\<lparr>calls := calls tr @
        after_calls sc sp
          (if operation = [] then ToUpper up (takeWhile (\<lambda>c. c \<noteq> CHR '' '') (SQL sc)) else operation)
          (Replace (replacer_pairs (SQLVars sc)) (SQL sc))\<rparr>)"
  using assms
  by (cases "Error sc")
     (simp_all add: after_def operation_of_eq setStatement_Replace after_calls_def
        span_SetTag_def span_Finish_def Let_def)

lemma after_not_stored:
  "db_values sc spanGormKey = None \<Longrightarrow> after up sc operation tr = Inr tr"
  by (simp add: after_def)

lemma before_not_attached:
  "db_values sc parentSpanGormKey = None \<Longrightarrow> before sc tr = Inr (sc, tr)"
  by (simp add: before_def)

lemma before_attached:
  assumes "db_values sc parentSpanGormKey = Some (SpanValue parent)"
  shows "before sc tr =
     Inr (sc\<lparr>db_values := (db_values sc)(spanGormKey \<mapsto> SpanValue (next_span tr))\<rparr>,
          tr\<lparr>calls := calls tr @
                 [StartSpan ''sql'' parent (next_span tr),
                  SetTag (next_span tr) ''db.type'' (TagString (DialectName sc)),
                  SetTag (next_span tr) ''db.instance'' (TagString (InstanceID sc))],
              next_span := Suc (next_span tr)\<rparr>)"
  using assms
  by (simp add: before_def tracer_StartSpan_def span_SetTag_def Let_def)

lemma filter_after_calls:
  "filter is_Finish (after_calls sc sp m st) = [Finish sp]"
  "filter is_StartSpan (after_calls sc sp m st) = []"
  by (cases "Error sc"; simp add: after_calls_def)+

lemma afters_stored:
  assumes "db_values sc spanGormKey = Some (SpanValue sp)"
  shows "\<exists>tr'. afters up n sc operation tr = Inr tr' \<and> next_span tr' = next_span tr \<and>
           (\<exists>new. calls tr' = calls tr @ new \<and>
              filter is_Finish new = replicate n (Finish sp) \<and>
              filter is_StartSpan new = [])"
proof (induction n arbitrary: tr)
  case 0
  then show ?case by simp
next
  case (Suc n)
  let ?m = "if operation = [] then ToUpper up (takeWhile (\<lambda>c. c \<noteq> CHR '' '') (SQL sc)) else operation"
  let ?st = "Replace (replacer_pairs (SQLVars sc)) (SQL sc)"
  let ?tr1 = "tr\<lparr>calls := calls tr @ after_calls sc sp ?m ?st\<rparr>"
  have a: "after up sc operation tr = Inr ?tr1" by (rule after_stored [OF assms])
  from Suc [of ?tr1] obtain tr' new where
    t: "afters up n sc operation ?tr1 = Inr tr'" "next_span tr' = next_span ?tr1"
       "calls tr' = calls ?tr1 @ new" "filter is_Finish new = replicate n (Finish sp)"
       "filter is_StartSpan new = []"
    by blast
  have "afters up (Suc n) sc operation tr = Inr tr'" using a t(1) by simp
  moreover have "next_span tr' = next_span tr" using t(2) by simp
  moreover have "calls tr' = calls tr @ (after_calls sc sp ?m ?st @ new)" using t(3) by simp
  moreover have "filter is_Finish (after_calls sc sp ?m ?st @ new) = replicate (Suc n) (Finish sp)"
    using t(4) by (simp add: filter_after_calls)
  moreover have "filter is_StartSpan (after_calls sc sp ?m ?st @ new) = []"
    using t(5) by (simp add: filter_after_calls)
  ultimately show ?case by blast
qed

lemma isASCII_takeWhile: "isASCII s \<Longrightarrow> isASCII (takeWhile P s)"
  by (auto simp: isASCII_def list_all_iff dest: set_takeWhileD)

section \<open>Claims about the span lifecycle\<close>

text \<open>
  C7. On a scope to which no parent span was attached (and which, as the data model has
  it, then holds no active span either), \<^verbatim>\<open>before\<close> followed by \<^verbatim>\<open>after\<close> does nothing
  with the tracer: both return without a panic, the scope and the tracer are as they
  were, no span is started, no tag set, no span finished. The host may have filled in the
  statement, its arguments, the row count and the error in between.
\<close>

theorem untraced_pair_no_tracer_calls:
  assumes "db_values sc parentSpanGormKey = None" and "db_values sc spanGormKey = None"
  shows "before sc tr = Inr (sc, tr) \<and>
         after up (sc\<lparr>SQL := q, SQLVars := vars, RowsAffected := n, Error := err\<rparr>) operation tr =
           Inr tr \<and>
         calls_since tr tr = []"
  using assms
  by (simp add: before_not_attached after_not_stored calls_since_def)

theorem untraced_pair_witness:
  "db_values (SetSpanToGorm (Context None) (scope_of [] [])) parentSpanGormKey = None \<and>
   db_values (SetSpanToGorm (Context None) (scope_of [] [])) spanGormKey = None \<and>
   before (SetSpanToGorm (Context None) (scope_of [] [])) tracer0 =
     Inr (SetSpanToGorm (Context None) (scope_of [] []), tracer0) \<and>
   after unmapped
     (scope_of ''SELECT * FROM t WHERE id = $1'' [GoInt 5]\<lparr>Error := Some ''record not found''\<rparr>)
     ''SELECT'' tracer0 = Inr tracer0"
proof -
  let ?sc = "SetSpanToGorm (Context None) (scope_of [] [])"
  have h1: "db_values ?sc parentSpanGormKey = None"
    by (simp add: SetSpanToGorm_def scope_of_def)
  have h2: "db_values ?sc spanGormKey = None"
    by (simp add: SetSpanToGorm_def scope_of_def)
  have sc: "?sc\<lparr>SQL := ''SELECT * FROM t WHERE id = $1'', SQLVars := [GoInt 5],
      RowsAffected := 1, Error := Some ''record not found''\<rparr> =
      scope_of ''SELECT * FROM t WHERE id = $1'' [GoInt 5]\<lparr>Error := Some ''record not found''\<rparr>"
    by (simp add: SetSpanToGorm_def scope_of_def)
  from untraced_pair_no_tracer_calls [OF h1 h2, where tr = tracer0 and up = unmapped
      and q = "''SELECT * FROM t WHERE id = $1''" and vars = "[GoInt 5]" and n = 1
      and err = "Some ''record not found''" and operation = "''SELECT''"] sc h1 h2
  show ?thesis by simp
qed

text \<open>
  C8. On a scope with a parent span attached, \<^verbatim>\<open>before\<close> followed by \<^verbatim>\<open>after\<close> makes
  exactly these calls: one \<^verbatim>\<open>StartSpan\<close>, the tags, and one \<^verbatim>\<open>Finish\<close> of the span that was
  started, as the last call. This is so whatever the error of the operation is; the error
  only shows in the tag \<^verbatim>\<open>error\<close> and, when there is one, in the tag \<^verbatim>\<open>db.err\<close>.
\<close>

theorem traced_pair_one_StartSpan_one_Finish:
  assumes "db_values sc parentSpanGormKey = Some (SpanValue parent)"
  shows "\<exists>sc1 tr1 tr2 method statement.
           before sc tr = Inr (sc1, tr1) \<and>
           after up (sc1\<lparr>SQL := q, SQLVars := vars, RowsAffected := n, Error := err\<rparr>) operation tr1 =
             Inr tr2 \<and>
           operation_of up (sc\<lparr>SQL := q\<rparr>) operation = Inr method \<and>
           setStatement (sc\<lparr>SQL := q, SQLVars := vars\<rparr>) = Inr statement \<and>
           calls_since tr tr2 =
             [StartSpan ''sql'' parent (next_span tr),
              SetTag (next_span tr) ''db.type'' (TagString (DialectName sc)),
              SetTag (next_span tr) ''db.instance'' (TagString (InstanceID sc)),
              SetTag (next_span tr) ''error'' (TagBool (err \<noteq> None)),
              SetTag (next_span tr) ''db.table'' (TagString (TableName sc)),
              SetTag (next_span tr) ''db.method'' (TagString method),
              SetTag (next_span tr) ''db.count'' (TagInt64 n)] @
             (case err of
                None \<Rightarrow> []
              | Some msg \<Rightarrow> [SetTag (next_span tr) ''db.err'' (TagError msg)]) @
             [SetTag (next_span tr) ''db.statement'' (TagString statement),
              Finish (next_span tr)] \<and>
           length (filter is_StartSpan (calls_since tr tr2)) = 1 \<and>
           length (filter is_Finish (calls_since tr tr2)) = 1 \<and>
           count_list (calls_since tr tr2) (Finish (next_span tr)) = 1"
proof -
  let ?sp = "next_span tr"
  let ?sc1 = "sc\<lparr>db_values := (db_values sc)(spanGormKey \<mapsto> SpanValue ?sp)\<rparr>"
  let ?sc2 = "?sc1\<lparr>SQL := q, SQLVars := vars, RowsAffected := n, Error := err\<rparr>"
  let ?tr1 = "tr\<lparr>calls := calls tr @
                 [StartSpan ''sql'' parent ?sp,
                  SetTag ?sp ''db.type'' (TagString (DialectName sc)),
                  SetTag ?sp ''db.instance'' (TagString (InstanceID sc))],
              next_span := Suc ?sp\<rparr>"
  let ?m = "if operation = [] then ToUpper up (takeWhile (\<lambda>c. c \<noteq> CHR '' '') q) else operation"
  let ?st = "Replace (replacer_pairs vars) q"
  let ?tr2 = "?tr1\<lparr>calls := calls ?tr1 @ after_calls ?sc2 ?sp ?m ?st\<rparr>"
  have b: "before sc tr = Inr (?sc1, ?tr1)" by (rule before_attached [OF assms])
  have "db_values ?sc2 spanGormKey = Some (SpanValue ?sp)" by simp
  from after_stored [OF this, where up = up and operation = operation and tr = ?tr1]
  have a: "after up ?sc2 operation ?tr1 = Inr ?tr2" by simp
  have c: "calls_since tr ?tr2 =
             [StartSpan ''sql'' parent ?sp,
              SetTag ?sp ''db.type'' (TagString (DialectName sc)),
              SetTag ?sp ''db.instance'' (TagString (InstanceID sc)),
              SetTag ?sp ''error'' (TagBool (err \<noteq> None)),
              SetTag ?sp ''db.table'' (TagString (TableName sc)),
              SetTag ?sp ''db.method'' (TagString ?m),
              SetTag ?sp ''db.count'' (TagInt64 n)] @
             (case err of
                None \<Rightarrow> []
              | Some msg \<Rightarrow> [SetTag ?sp ''db.err'' (TagError msg)]) @
             [SetTag ?sp ''db.statement'' (TagString ?st), Finish ?sp]"
    by (simp add: calls_since_def after_calls_def HasError_def)
  have d: "length (filter is_StartSpan (calls_since tr ?tr2)) = 1"
    "length (filter is_Finish (calls_since tr ?tr2)) = 1"
    "count_list (calls_since tr ?tr2) (Finish ?sp) = 1"
    unfolding c by (cases err; simp)+
  have e: "operation_of up (sc\<lparr>SQL := q\<rparr>) operation = Inr ?m"
    "setStatement (sc\<lparr>SQL := q, SQLVars := vars\<rparr>) = Inr ?st"
    by (simp_all add: operation_of_eq setStatement_Replace)
  from b a e c d show ?thesis by blast
qed

theorem traced_pair_witness:
  "db_values (SetSpanToGorm (Context (Some 7)) (scope_of [] [])) parentSpanGormKey =
     Some (SpanValue 7) \<and>
   (\<exists>sc1 tr1 tr2.
      before (SetSpanToGorm (Context (Some 7)) (scope_of [] [])) tracer0 = Inr (sc1, tr1) \<and>
      after unmapped
        (sc1\<lparr>SQL := ''SELECT * FROM t WHERE id = $1'', SQLVars := [GoInt 5],
             RowsAffected := 0, Error := Some ''record not found''\<rparr>) ''SELECT'' tr1 =
        Inr tr2 \<and>
      calls_since tracer0 tr2 =
        [StartSpan ''sql'' 7 8,
         SetTag 8 ''db.type'' (TagString ''postgres''),
         SetTag 8 ''db.instance'' (TagString ''db1''),
         SetTag 8 ''error'' (TagBool True),
         SetTag 8 ''db.table'' (TagString ''t''),
         SetTag 8 ''db.method'' (TagString ''SELECT''),
         SetTag 8 ''db.count'' (TagInt64 0),
         SetTag 8 ''db.err'' (TagError ''record not found''),
         SetTag 8 ''db.statement'' (TagString ''SELECT * FROM t WHERE id = 5''),
         Finish 8])"
proof -
  let ?sc = "SetSpanToGorm (Context (Some 7)) (scope_of [] [])"
  have h: "db_values ?sc parentSpanGormKey = Some (SpanValue 7)"
    by (simp add: SetSpanToGorm_def scope_of_def)
  from traced_pair_one_StartSpan_one_Finish [OF h, where tr = tracer0 and up = unmapped
      and q = "''SELECT * FROM t WHERE id = $1''" and vars = "[GoInt 5]" and n = 0
      and err = "Some ''record not found''" and operation = "''SELECT''"]
  obtain sc1 tr1 tr2 verb stmt where r:
    "before ?sc tracer0 = Inr (sc1, tr1)"
    "after unmapped
       (sc1\<lparr>SQL := ''SELECT * FROM t WHERE id = $1'', SQLVars := [GoInt 5],
            RowsAffected := 0, Error := Some ''record not found''\<rparr>) ''SELECT'' tr1 = Inr tr2"
    "operation_of unmapped (?sc\<lparr>SQL := ''SELECT * FROM t WHERE id = $1''\<rparr>) ''SELECT'' = Inr verb"
    "setStatement (?sc\<lparr>SQL := ''SELECT * FROM t WHERE id = $1'', SQLVars := [GoInt 5]\<rparr>) =
       Inr stmt"
    "calls_since tracer0 tr2 =
       [StartSpan ''sql'' 7 (next_span tracer0),
        SetTag (next_span tracer0) ''db.type'' (TagString (DialectName ?sc)),
        SetTag (next_span tracer0) ''db.instance'' (TagString (InstanceID ?sc)),
        SetTag (next_span tracer0) ''error'' (TagBool (Some ''record not found'' \<noteq> None)),
        SetTag (next_span tracer0) ''db.table'' (TagString (TableName ?sc)),
        SetTag (next_span tracer0) ''db.method'' (TagString verb),
        SetTag (next_span tracer0) ''db.count'' (TagInt64 0)] @
       (case Some ''record not found'' of
          None \<Rightarrow> []
        | Some msg \<Rightarrow> [SetTag (next_span tracer0) ''db.err'' (TagError msg)]) @
       [SetTag (next_span tracer0) ''db.statement'' (TagString stmt),
        Finish (next_span tracer0)]"
    by blast
  have m: "verb = ''SELECT''"
    using r(3) by (simp add: operation_of_def)
  have "setStatement (?sc\<lparr>SQL := ''SELECT * FROM t WHERE id = $1'', SQLVars := [GoInt 5]\<rparr>) =
       Inr ''SELECT * FROM t WHERE id = 5''"
    by (simp add: SetSpanToGorm_def eval_simps)
  with r(4) have st: "stmt = ''SELECT * FROM t WHERE id = 5''" by simp
  have "calls_since tracer0 tr2 =
        [StartSpan ''sql'' 7 8,
         SetTag 8 ''db.type'' (TagString ''postgres''),
         SetTag 8 ''db.instance'' (TagString ''db1''),
         SetTag 8 ''error'' (TagBool True),
         SetTag 8 ''db.table'' (TagString ''t''),
         SetTag 8 ''db.method'' (TagString ''SELECT''),
         SetTag 8 ''db.count'' (TagInt64 0),
         SetTag 8 ''db.err'' (TagError ''record not found''),
         SetTag 8 ''db.statement'' (TagString ''SELECT * FROM t WHERE id = 5''),
         Finish 8]"
    using r(5) m st by (simp add: tracer0_def SetSpanToGorm_def scope_of_def)
  with h r(1) r(2) show ?thesis by blast
qed

text \<open>
  C3. The claim: after \<^verbatim>\<open>before\<close> has stored a span, two runs of \<^verbatim>\<open>after\<close> on the same
  scope call \<^verbatim>\<open>Finish\<close> at most once. \<^verbatim>\<open>after\<close> does not remove the span from the scope and
  keeps no record of having finished it, so the second run finds the span and finishes it
  again. The claim refuted on a scope with the parent span 7 attached:
\<close>

theorem after_twice_counterexample:
  "finish_count tracer0
     (before_then_afters unmapped 2 (SetSpanToGorm (Context (Some 7)) (scope_of ''SELECT 1'' []))
        ''SELECT'' tracer0) = 2 \<and>
   \<not> finish_count tracer0
       (before_then_afters unmapped 2 (SetSpanToGorm (Context (Some 7)) (scope_of ''SELECT 1'' []))
          ''SELECT'' tracer0) \<le> 1"
  by (simp add: finish_count_def run_calls_def before_then_afters_def before_def after_def SetSpanToGorm_def
        scope_of_def tracer0_def tracer_StartSpan_def span_SetTag_def span_Finish_def
        operation_of_def HasError_def parentSpanGormKey_def spanGormKey_def Let_def
        calls_since_def setStatement_def replacer_loop.simps Replace_def Replace_from.simps
        numeral_2_eq_2)

text \<open>
  C3, as it holds. On a scope with a parent span attached, \<^verbatim>\<open>before\<close> and then two runs of
  \<^verbatim>\<open>after\<close> call \<^verbatim>\<open>Finish\<close> on the stored span twice, once in each run; \<^verbatim>\<open>StartSpan\<close> is
  called once, by \<^verbatim>\<open>before\<close>.
\<close>

theorem after_twice_finishes_twice:
  assumes "db_values sc parentSpanGormKey = Some (SpanValue parent)"
  shows "\<exists>tr2. before_then_afters up 2 sc operation tr = Inr tr2 \<and>
           filter is_Finish (calls_since tr tr2) = [Finish (next_span tr), Finish (next_span tr)] \<and>
           length (filter is_StartSpan (calls_since tr tr2)) = 1 \<and>
           finish_count tr (before_then_afters up 2 sc operation tr) = 2"
proof -
  let ?sp = "next_span tr"
  let ?sc1 = "sc\<lparr>db_values := (db_values sc)(spanGormKey \<mapsto> SpanValue ?sp)\<rparr>"
  let ?start = "[StartSpan ''sql'' parent ?sp,
                  SetTag ?sp ''db.type'' (TagString (DialectName sc)),
                  SetTag ?sp ''db.instance'' (TagString (InstanceID sc))]"
  let ?tr1 = "tr\<lparr>calls := calls tr @ ?start, next_span := Suc ?sp\<rparr>"
  have b: "before sc tr = Inr (?sc1, ?tr1)" by (rule before_attached [OF assms])
  have "db_values ?sc1 spanGormKey = Some (SpanValue ?sp)" by simp
  from afters_stored [OF this, where up = up and n = 2 and operation = operation and tr = ?tr1]
  obtain tr2 new where t: "afters up 2 ?sc1 operation ?tr1 = Inr tr2"
      "calls tr2 = calls ?tr1 @ new" "filter is_Finish new = replicate 2 (Finish ?sp)"
      "filter is_StartSpan new = []"
    by blast
  have run: "before_then_afters up 2 sc operation tr = Inr tr2"
    using b t(1) by (simp add: before_then_afters_def)
  have cs: "calls_since tr tr2 = ?start @ new"
    using t(2) by (simp add: calls_since_def)
  have f: "filter is_Finish (calls_since tr tr2) = [Finish ?sp, Finish ?sp]"
    unfolding cs using t(3) by (simp add: numeral_2_eq_2)
  have s: "length (filter is_StartSpan (calls_since tr tr2)) = 1"
    unfolding cs using t(4) by simp
  have "finish_count tr (before_then_afters up 2 sc operation tr) = 2"
    using run f by (simp add: finish_count_def run_calls_def)
  with run f s show ?thesis by blast
qed

theorem after_twice_witness:
  "db_values (SetSpanToGorm (Context (Some 3)) (scope_of ''DELETE FROM t'' [])) parentSpanGormKey =
     Some (SpanValue 3) \<and>
   finish_count tracer0
     (before_then_afters unmapped 2 (SetSpanToGorm (Context (Some 3)) (scope_of ''DELETE FROM t'' []))
        ''DELETE'' tracer0) = 2"
proof -
  let ?sc = "SetSpanToGorm (Context (Some 3)) (scope_of ''DELETE FROM t'' [])"
  have h: "db_values ?sc parentSpanGormKey = Some (SpanValue 3)"
    by (simp add: SetSpanToGorm_def scope_of_def)
  from after_twice_finishes_twice [OF h, where tr = tracer0 and up = unmapped
      and operation = "''DELETE''"] h
  show ?thesis by blast
qed

text \<open>
  C9. The claim: with an empty verb the tag \<^verbatim>\<open>db.method\<close> is the first
  whitespace-delimited token of the template, in upper case. The code splits the template
  at the space character only, and takes the first piece: a tab or a line break does not
  end the token, and a template that starts with a space gives the empty text. The claim
  refuted on a template with a tab behind the verb:
\<close>

theorem method_tag_counterexample:
  "method_tags
     (run_calls tracer0
        (afterRowQuery unmapped
           (with_span 3 (scope_of (''select'' @ [CHR 0x09] @ ''id from t'') [])) tracer0)) =
     [''SELECT'' @ [CHR 0x09] @ ''ID''] \<and>
   [ToUpper unmapped (first_token (''select'' @ [CHR 0x09] @ ''id from t''))] = [''SELECT''] \<and>
   \<not> method_tags
       (run_calls tracer0
          (afterRowQuery unmapped
             (with_span 3 (scope_of (''select'' @ [CHR 0x09] @ ''id from t'') [])) tracer0)) =
     [ToUpper unmapped (first_token (''select'' @ [CHR 0x09] @ ''id from t''))]"
  by (simp add: run_calls_def afterRowQuery_def after_def with_span_def scope_of_def tracer0_def
        span_SetTag_def span_Finish_def operation_of_def HasError_def spanGormKey_def Let_def
        calls_since_def setStatement_def replacer_loop.simps Replace_def Replace_from.simps
        method_tags_def ToUpper_def isASCII_def ToUpper_byte_def first_token_def
        is_space_def)

text \<open>
  C9, as it holds. With an empty verb and a span stored, \<^verbatim>\<open>after\<close> sets the tag
  \<^verbatim>\<open>db.method\<close> once, to \<^verbatim>\<open>strings.ToUpper\<close> of the text before the first space of the
  template (whatever the Unicode mapping does to a text that is not ASCII); for an ASCII
  template that is this text with the letters a to z replaced by A to Z. For
  \<^verbatim>\<open>select id from t\<close> it is \<^verbatim>\<open>SELECT\<close>.
\<close>

theorem method_tag_first_piece:
  assumes "db_values sc spanGormKey = Some (SpanValue sp)"
  shows "\<exists>tr1. afterRowQuery up sc tr = Inr tr1 \<and>
           method_tags (calls_since tr tr1) =
             [ToUpper up (takeWhile (\<lambda>c. c \<noteq> CHR '' '') (SQL sc))] \<and>
           (isASCII (SQL sc) \<longrightarrow>
              method_tags (calls_since tr tr1) =
                [map ToUpper_byte (takeWhile (\<lambda>c. c \<noteq> CHR '' '') (SQL sc))])"
proof -
  let ?m = "ToUpper up (takeWhile (\<lambda>c. c \<noteq> CHR '' '') (SQL sc))"
  let ?st = "Replace (replacer_pairs (SQLVars sc)) (SQL sc)"
  let ?tr1 = "tr\<lparr>calls := calls tr @ after_calls sc sp ?m ?st\<rparr>"
  from after_stored [OF assms, where up = up and operation = "[]" and tr = tr]
  have a: "afterRowQuery up sc tr = Inr ?tr1" by (simp add: afterRowQuery_def)
  have m: "method_tags (calls_since tr ?tr1) = [?m]"
    by (cases "Error sc")
       (simp_all add: calls_since_def after_calls_def method_tags_def)
  have "isASCII (SQL sc) \<longrightarrow>
      ?m = map ToUpper_byte (takeWhile (\<lambda>c. c \<noteq> CHR '' '') (SQL sc))"
    by (simp add: ToUpper_def isASCII_takeWhile)
  with a m show ?thesis by auto
qed

theorem method_tag_witness:
  "db_values (with_span 3 (scope_of ''select id from t'' [])) spanGormKey = Some (SpanValue 3) \<and>
   isASCII (SQL (with_span 3 (scope_of ''select id from t'' []))) \<and>
   (\<exists>tr1. afterRowQuery unmapped (with_span 3 (scope_of ''select id from t'' [])) tracer0 =
            Inr tr1 \<and>
      method_tags (calls_since tracer0 tr1) = [''SELECT''])"
proof -
  let ?sc = "with_span 3 (scope_of ''select id from t'' [])"
  have h: "db_values ?sc spanGormKey = Some (SpanValue 3)"
    by (simp add: with_span_def)
  have ascii: "isASCII (SQL ?sc)"
    by (simp add: with_span_def scope_of_def isASCII_def)
  have "map ToUpper_byte (takeWhile (\<lambda>c. c \<noteq> CHR '' '') (SQL ?sc)) = ''SELECT''"
    by (simp add: with_span_def scope_of_def ToUpper_byte_def)
  with method_tag_first_piece [OF h, where tr = tracer0 and up = unmapped] h ascii
  show ?thesis by auto
qed

end
